theory Spec2Isabelle
  imports Main
begin

section \<open>Data model\<close>

text \<open>
  The todo application keeps one table, \<open>todosTable\<close>, and four handlers over it.
  A timestamp is the number of milliseconds a JavaScript \<open>Date\<close> holds; an id is the
  integer the table's auto-incrementing primary key gives a row. A nullable column is an
  \<open>option\<close>, \<open>None\<close> being \<open>null\<close>.
\<close>

type_synonym timestamp = int

text \<open>The type \<open>Todo\<close> of the handlers' results: one row of the table.\<close>

record Todo =
  id' :: int
  title :: string
  description :: "string option"
  completed :: bool
  created_at :: timestamp
  updated_at :: timestamp

text \<open>
  \<open>CreateTodoInput\<close>: the tests build it with the description left out, with an explicit
  \<open>null\<close>, and with a text, so the field has three shapes.
\<close>

datatype description_input = Omitted | Null | Text string

record CreateTodoInput =
  new_title :: string
  new_description :: description_input

text \<open>\<open>UpdateTodoCompletionInput\<close>: \<open>{ id, completed }\<close>.\<close>

record UpdateTodoCompletionInput =
  upd_id :: int
  upd_completed :: bool

text \<open>\<open>DeleteTodoInput\<close>: \<open>{ id }\<close>.\<close>

record DeleteTodoInput =
  del_id :: int

text \<open>The result of \<open>deleteTodo\<close>: \<open>{ success }\<close>.\<close>

record DeleteTodoResult =
  success :: bool

text \<open>
  A rejected promise is a value: \<open>Error msg\<close> is \<open>new Error(msg)\<close>, \<open>DatabaseError\<close> is
  the error with which the database driver rejects a statement, and \<open>ValidationError\<close> is
  the rejection of an input whose title is empty.
\<close>

datatype error = Error string | DatabaseError | ValidationError

section \<open>The table\<close>

text \<open>
  The table declaration (db/schema) and the database connection are not among the sources;
  the handlers reach the table through the query builder, and each statement they issue is
  one function here. The state is the list of rows in the order in which the engine stores
  them, which is the order a scan without an ordering clause yields, and the next value of
  the key's sequence. The engine is PostgreSQL: an inserted row is stored behind the rows
  already there; an updated row is stored anew, behind the rows already there, and its old
  version is dropped, so a later scan meets it last; a deleted row is dropped. The storage
  engine is reachable at every statement (a connection failure is outside the model).
\<close>

record db =
  rows :: "Todo list"
  next_id :: int

text \<open>\<open>createDB\<close>: the empty table every test starts from.\<close>

definition createDB :: db where
  "createDB = \<lparr>rows = [], next_id = 1\<rparr>"

text \<open>
  \<open>db.select().from(todosTable).execute()\<close>: every row, no filter and no ordering clause,
  so the rows come in the table's own order.
\<close>

definition select_from :: "db \<Rightarrow> Todo list" where
  "select_from s = rows s"

text \<open>
  Modelled from the spec: the key column. The id is an integer, the auto-incrementing
  primary key of the table: a 32-bit integer column. The values of the column are the
  integers of that range; an id that a row of the table holds is a value of the column.
\<close>

definition in_key_range :: "int \<Rightarrow> bool" where
  "in_key_range i = (- 2147483648 \<le> i \<and> i \<le> 2147483647)"

definition key_value :: "db \<Rightarrow> int \<Rightarrow> bool" where
  "key_value s i = (in_key_range i \<or> i \<in> set (map id' (rows s)))"

text \<open>
  \<open>db.update(todosTable).set(f).where(eq(todosTable.id, i)).returning().execute()\<close>.
  The engine rejects the statement when \<open>i\<close> is no value of the key column (out of range
  for the column's type) and touches nothing. Otherwise every row with that id is rewritten
  by \<open>f\<close> and stored behind the others, and the rewritten rows are returned.
\<close>

definition update_set_where_returning ::
  "(Todo \<Rightarrow> Todo) \<Rightarrow> int \<Rightarrow> db \<Rightarrow> error + Todo list \<times> db" where
  "update_set_where_returning f i s =
     (if \<not> key_value s i then Inl DatabaseError
      else Inr (map f (filter (\<lambda>r. id' r = i) (rows s)),
                s\<lparr>rows := filter (\<lambda>r. id' r \<noteq> i) (rows s) @
                            map f (filter (\<lambda>r. id' r = i) (rows s))\<rparr>))"

section \<open>Rendering a number in a template literal\<close>

definition digit_char :: "nat \<Rightarrow> char" where
  "digit_char d = ''0123456789'' ! d"

function string_of_nat :: "nat \<Rightarrow> string" where
  "string_of_nat n =
     (if n < 10 then [digit_char n]
      else string_of_nat (n div 10) @ [digit_char (n mod 10)])"
  by pat_completeness auto
termination
  by (relation "measure (\<lambda>n. n)") auto

declare string_of_nat.simps [simp del]

text \<open>
  \<open>`${n}`\<close> for an integer \<open>n\<close>: decimal digits, a minus sign in front when negative.
  This is how a template literal renders an integer of magnitude below \<open>1e21\<close>; the
  handler renders an id only after the statement accepted it, and an id that no row holds is
  then within the key range.
\<close>

definition string_of_int :: "int \<Rightarrow> string" where
  "string_of_int i =
     (if i < 0 then CHR ''-'' # string_of_nat (nat (- i)) else string_of_nat (nat i))"

section \<open>Handlers\<close>

text \<open>
  \<open>getTodos\<close> (handlers/get\_todos.ts): selects all rows and returns them as they come.
  The handler's \<open>catch\<close> logs and rethrows; the select raises nothing here, so the result
  is always \<open>Inr\<close>.
\<close>

definition getTodos :: "db \<Rightarrow> (error + Todo list) \<times> db" where
  "getTodos s = (let results = select_from s in (Inr results, s))"

text \<open>
  \<open>updateTodoCompletion\<close>: one \<open>UPDATE ... SET completed, updated_at = NOW() WHERE id = input.id
  RETURNING *\<close>, then a throw when nothing came back, else the first returned row. The
  server's \<open>NOW()\<close> at the statement is the argument \<open>now\<close>. The \<open>catch\<close> logs and
  rethrows what it caught: the statement's own error, or the not-found error. (The sources
  also hold the placeholder this implementation replaced, which touched no table and
  returned a sample todo.)
\<close>

definition updateTodoCompletion ::
  "timestamp \<Rightarrow> UpdateTodoCompletionInput \<Rightarrow> db \<Rightarrow> (error + Todo) \<times> db" where
  "updateTodoCompletion now input s =
     (case update_set_where_returning
             (\<lambda>r. r\<lparr>completed := upd_completed input, updated_at := now\<rparr>)
             (upd_id input) s of
        Inl e \<Rightarrow> (Inl e, s)
      | Inr (result, s') \<Rightarrow>
          if length result = 0
          then (Inl (Error (''Todo with id '' @ string_of_int (upd_id input) @ '' not found'')), s')
          else (Inr (result ! 0), s'))"

text \<open>
  Modelled from the spec: the store's \<open>insert(title, description?)\<close>, whose table
  declaration (db/schema) is not among the sources. It creates a row with
  \<open>completed = false\<close>, the next value of the auto-incrementing primary key, and
  \<open>created_at = updated_at = now\<close>; ids grow in insertion order and are never reused.
  The new row is stored behind the rows already there.
\<close>

definition insert_values_returning ::
  "timestamp \<Rightarrow> string \<Rightarrow> string option \<Rightarrow> db \<Rightarrow> Todo list \<times> db" where
  "insert_values_returning now t d s =
     (let row = \<lparr>id' = next_id s, title = t, description = d, completed = False,
                 created_at = now, updated_at = now\<rparr>
      in ([row], s\<lparr>rows := rows s @ [row], next_id := next_id s + 1\<rparr>))"

text \<open>
  Modelled from the spec: the store's \<open>deleteById(id)\<close>. It removes the row matching the
  id and returns whether a row was actually removed; no other row is touched.
\<close>

definition deleteById :: "int \<Rightarrow> db \<Rightarrow> bool \<times> db" where
  "deleteById i s =
     (i \<in> set (map id' (rows s)),
      s\<lparr>rows := filter (\<lambda>r. id' r \<noteq> i) (rows s)\<rparr>)"

text \<open>
  Modelled from the spec: the handler \<open>createTodo\<close> (handlers/create\_todo.ts is not among
  the sources; its tests are). The title must be a non-empty string, an input without one
  is rejected before it reaches the storage; the description is absent when it is omitted
  or explicitly \<open>null\<close>; the rest is the store's insert.
\<close>

definition createTodo ::
  "timestamp \<Rightarrow> CreateTodoInput \<Rightarrow> db \<Rightarrow> (error + Todo) \<times> db" where
  "createTodo now input s =
     (if new_title input = [] then (Inl ValidationError, s)
      else
        let d = (case new_description input of
                   Omitted \<Rightarrow> None | Null \<Rightarrow> None | Text x \<Rightarrow> Some x);
            (result, s') = insert_values_returning now (new_title input) d s
        in (Inr (result ! 0), s'))"

text \<open>
  Modelled from the spec: the handler \<open>deleteTodo\<close> (handlers/delete\_todo.ts is not among
  the sources; its tests are). It calls the store's \<open>deleteById\<close> and returns
  \<open>{ success }\<close>, whether a deletion occurred; it raises no not-found error.
\<close>

definition deleteTodo :: "DeleteTodoInput \<Rightarrow> db \<Rightarrow> (error + DeleteTodoResult) \<times> db" where
  "deleteTodo input s =
     (let (removed, s') = deleteById (del_id input) s
      in (Inr \<lparr>success = removed\<rparr>, s'))"

section \<open>Sequences of requests\<close>

text \<open>
  The four remote procedures. A request arrives with the server time at which its statement
  runs; a handler that fails leaves the database as its statement left it.
\<close>

datatype request =
    CreateTodo CreateTodoInput
  | GetTodos
  | UpdateTodoCompletion UpdateTodoCompletionInput
  | DeleteTodo DeleteTodoInput

fun handle :: "timestamp \<Rightarrow> request \<Rightarrow> db \<Rightarrow> db" where
  "handle now (CreateTodo input) s = snd (createTodo now input s)"
| "handle now GetTodos s = snd (getTodos s)"
| "handle now (UpdateTodoCompletion input) s = snd (updateTodoCompletion now input s)"
| "handle now (DeleteTodo input) s = snd (deleteTodo input s)"

fun run :: "(timestamp \<times> request) list \<Rightarrow> db \<Rightarrow> db" where
  "run [] s = s"
| "run ((now, q) # tr) s = run tr (handle now q s)"





text \<open>
  The primary key's bookkeeping: no two rows share an id, and the sequence is ahead of
  every id in the table.
\<close>

definition key_ok :: "db \<Rightarrow> bool" where
  "key_ok s = (distinct (map id' (rows s)) \<and> (\<forall>i \<in> set (map id' (rows s)). i < next_id s))"

text \<open>
  A table for concrete checks: what two creations (at times 10 and 20) and one completion of
  the second todo (at time 30) leave behind.
\<close>

definition example_db :: db where
  "example_db =
     \<lparr>rows =
        [\<lparr>id' = 1, title = ''Todo 1'', description = Some ''First todo'', completed = False,
          created_at = 10, updated_at = 10\<rparr>,
         \<lparr>id' = 2, title = ''Todo 2'', description = None, completed = True,
          created_at = 20, updated_at = 30\<rparr>],
      next_id = 3\<rparr>"

definition example_creations :: "(timestamp \<times> request) list" where
  "example_creations =
     [(10, CreateTodo \<lparr>new_title = ''Todo 1'', new_description = Text ''First todo''\<rparr>),
      (20, CreateTodo \<lparr>new_title = ''Todo 2'', new_description = Null\<rparr>)]"

definition example_requests :: "(timestamp \<times> request) list" where
  "example_requests =
     example_creations @ [(30, UpdateTodoCompletion \<lparr>upd_id = 2, upd_completed = True\<rparr>)]"



section \<open>Lemmas about the statements and the handlers\<close>

subsection \<open>The rendering of an id\<close>

lemma digit_char_code: "d < 10 \<Longrightarrow> of_char (digit_char d) = (48 + d :: nat)"
proof -
  assume "d < 10"
  then consider "d = 0" | "d = 1" | "d = 2" | "d = 3" | "d = 4" | "d = 5" | "d = 6"
    | "d = 7" | "d = 8" | "d = 9" by atomize_elim arith
  then show ?thesis by cases (simp_all add: digit_char_def)
qed

lemma digit_char_inj: "a < 10 \<Longrightarrow> b < 10 \<Longrightarrow> digit_char a = digit_char b \<Longrightarrow> a = b"
proof -
  assume a: "a < 10" and b: "b < 10" and e: "digit_char a = digit_char b"
  have "(of_char (digit_char a) :: nat) = of_char (digit_char b)" by (simp only: e)
  with a b show ?thesis by (simp add: digit_char_code)
qed

lemma digit_char_not_minus: "d < 10 \<Longrightarrow> digit_char d \<noteq> CHR ''-''"
proof
  assume d: "d < 10" and e: "digit_char d = CHR ''-''"
  have "(of_char (digit_char d) :: nat) = of_char CHR ''-''" by (simp only: e)
  with d show False by (simp add: digit_char_code)
qed

lemma string_of_nat_nonempty: "string_of_nat n \<noteq> []"
  by (subst string_of_nat.simps) simp

lemma string_of_nat_no_minus: "CHR ''-'' \<notin> set (string_of_nat n)"
proof (induction n rule: string_of_nat.induct)
  case (1 n)
  show ?case
  proof (cases "n < 10")
    case True
    then show ?thesis
      using digit_char_not_minus [of n] by (subst string_of_nat.simps) auto
  next
    case False
    have "n mod 10 < 10" by simp
    then have "digit_char (n mod 10) \<noteq> CHR ''-''" by (rule digit_char_not_minus)
    with False "1.IH" show ?thesis
      by (subst string_of_nat.simps) auto
  qed
qed

lemma string_of_nat_inj: "string_of_nat n = string_of_nat m \<Longrightarrow> n = m"
proof (induction n arbitrary: m rule: string_of_nat.induct)
  case (1 n)
  show ?case
  proof (cases "n < 10")
    case small_n: True
    then have n: "string_of_nat n = [digit_char n]" by (subst string_of_nat.simps) simp
    show ?thesis
    proof (cases "m < 10")
      case True
      then have "string_of_nat m = [digit_char m]" by (subst string_of_nat.simps) simp
      with n "1.prems" have "digit_char n = digit_char m" by simp
      with small_n True show ?thesis by (rule digit_char_inj)
    next
      case False
      then have "string_of_nat m = string_of_nat (m div 10) @ [digit_char (m mod 10)]"
        by (subst string_of_nat.simps) simp
      with n "1.prems" have "string_of_nat (m div 10) = []" by simp
      then show ?thesis by (simp add: string_of_nat_nonempty)
    qed
  next
    case big_n: False
    then have n: "string_of_nat n = string_of_nat (n div 10) @ [digit_char (n mod 10)]"
      by (subst string_of_nat.simps) simp
    show ?thesis
    proof (cases "m < 10")
      case True
      then have "string_of_nat m = [digit_char m]" by (subst string_of_nat.simps) simp
      with n "1.prems" have "string_of_nat (n div 10) = []" by simp
      then show ?thesis by (simp add: string_of_nat_nonempty)
    next
      case False
      then have "string_of_nat m = string_of_nat (m div 10) @ [digit_char (m mod 10)]"
        by (subst string_of_nat.simps) simp
      with n "1.prems" have front: "string_of_nat (n div 10) = string_of_nat (m div 10)"
        and units: "digit_char (n mod 10) = digit_char (m mod 10)" by simp_all
      from big_n front have d: "n div 10 = m div 10" by (rule "1.IH")
      have "n mod 10 < 10" and "m mod 10 < 10" by simp_all
      then have r: "n mod 10 = m mod 10" using units by (rule digit_char_inj)
      have "n = 10 * (n div 10) + n mod 10" by simp
      also have "\<dots> = 10 * (m div 10) + m mod 10" by (simp only: d r)
      also have "\<dots> = m" by simp
      finally show ?thesis .
    qed
  qed
qed

lemma string_of_int_inj: "string_of_int i = string_of_int j \<Longrightarrow> i = j"
proof -
  assume e: "string_of_int i = string_of_int j"
  have no: "CHR ''-'' # xs \<noteq> string_of_nat k" for xs k
    using string_of_nat_no_minus [of k] by (metis list.set_intros(1))
  show ?thesis
  proof (cases "i < 0")
    case i: True
    show ?thesis
    proof (cases "j < 0")
      case True
      with i e have "string_of_nat (nat (- i)) = string_of_nat (nat (- j))"
        by (simp add: string_of_int_def)
      then have "nat (- i) = nat (- j)" by (rule string_of_nat_inj)
      with i True show ?thesis by simp
    next
      case False
      with i e no [of "string_of_nat (nat (- i))" "nat j"] show ?thesis
        by (simp add: string_of_int_def)
    qed
  next
    case i: False
    show ?thesis
    proof (cases "j < 0")
      case True
      with i e no [of "string_of_nat (nat (- j))" "nat i"] show ?thesis
        by (simp add: string_of_int_def)
    next
      case False
      with i e have "string_of_nat (nat i) = string_of_nat (nat j)"
        by (simp add: string_of_int_def)
      then have "nat i = nat j" by (rule string_of_nat_inj)
      with i False show ?thesis by simp
    qed
  qed
qed

subsection \<open>Rows selected by id\<close>

lemma filter_id_absent:
  "i \<notin> set (map id' xs) \<Longrightarrow> filter (\<lambda>r. id' r = i) xs = []"
  by (induction xs) auto

lemma filter_other_ids_absent:
  "i \<notin> set (map id' xs) \<Longrightarrow> filter (\<lambda>r. id' r \<noteq> i) xs = xs"
  by (induction xs) auto

lemma same_id_same_row:
  "distinct (map id' xs) \<Longrightarrow> r \<in> set xs \<Longrightarrow> x \<in> set xs \<Longrightarrow> id' x = id' r \<Longrightarrow> x = r"
  by (auto simp: distinct_map dest: inj_onD)

lemma filter_id_unique:
  "distinct (map id' xs) \<Longrightarrow> r \<in> set xs \<Longrightarrow> filter (\<lambda>x. id' x = id' r) xs = [r]"
proof (induction xs)
  case Nil
  then show ?case by simp
next
  case (Cons a xs)
  show ?case
  proof (cases "a = r")
    case True
    with Cons.prems have "id' r \<notin> set (map id' xs)" by simp
    then have "filter (\<lambda>x. id' x = id' r) xs = []" by (rule filter_id_absent)
    with True show ?thesis by simp
  next
    case False
    with Cons.prems have "r \<in> set xs" by simp
    then have "id' r \<in> set (map id' xs)" by simp
    with Cons.prems have "id' a \<noteq> id' r" by auto
    with Cons \<open>r \<in> set xs\<close> show ?thesis by simp
  qed
qed

lemma filter_other_ids_unique:
  assumes "distinct (map id' xs)" and "r \<in> set xs"
  shows "filter (\<lambda>x. id' x \<noteq> id' r) xs = filter (\<lambda>x. x \<noteq> r) xs"
proof -
  have "x = r" if "x \<in> set xs" and "id' x = id' r" for x
    using assms that by (rule same_id_same_row)
  then show ?thesis by (intro filter_cong) auto
qed

text \<open>The rows of a table after an update of the rows with id \<open>i\<close> by \<open>f\<close>.\<close>

lemma updated_others:
  assumes "\<And>r. id' (f r) = id' r"
  shows "filter (\<lambda>r. id' r \<noteq> i)
           (filter (\<lambda>r. id' r \<noteq> i) xs @ map f (filter (\<lambda>r. id' r = i) xs)) =
         filter (\<lambda>r. id' r \<noteq> i) xs"
  by (simp add: filter_map o_def assms)

lemma updated_those:
  assumes "\<And>r. id' (f r) = id' r"
  shows "filter (\<lambda>r. id' r = i)
           (filter (\<lambda>r. id' r \<noteq> i) xs @ map f (filter (\<lambda>r. id' r = i) xs)) =
         map f (filter (\<lambda>r. id' r = i) xs)"
  by (simp add: filter_map o_def assms)

lemma updated_ids_set:
  assumes "\<And>r. id' (f r) = id' r"
  shows "set (map id' (filter (\<lambda>r. id' r \<noteq> i) xs @ map f (filter (\<lambda>r. id' r = i) xs))) =
         set (map id' xs)"
proof -
  have "map id' (map f (filter (\<lambda>r. id' r = i) xs)) = map id' (filter (\<lambda>r. id' r = i) xs)"
    by (simp add: assms)
  then have "set (map id' (filter (\<lambda>r. id' r \<noteq> i) xs @ map f (filter (\<lambda>r. id' r = i) xs))) =
      set (map id' (filter (\<lambda>r. id' r \<noteq> i) xs)) \<union> set (map id' (filter (\<lambda>r. id' r = i) xs))"
    by (simp only: map_append set_append)
  also have "\<dots> = set (map id' xs)" by auto
  finally show ?thesis .
qed

lemma updated_ids_distinct:
  assumes "\<And>r. id' (f r) = id' r" and "distinct (map id' xs)"
  shows "distinct (map id' (filter (\<lambda>r. id' r \<noteq> i) xs @ map f (filter (\<lambda>r. id' r = i) xs)))"
proof -
  have m: "map id' (map f (filter (\<lambda>r. id' r = i) xs)) = map id' (filter (\<lambda>r. id' r = i) xs)"
    by (simp add: assms(1))
  have d1: "distinct (map id' (filter (\<lambda>r. id' r \<noteq> i) xs))"
    using assms(2) by (rule distinct_map_filter)
  have d2: "distinct (map id' (filter (\<lambda>r. id' r = i) xs))"
    using assms(2) by (rule distinct_map_filter)
  have disj: "set (map id' (filter (\<lambda>r. id' r \<noteq> i) xs)) \<inter>
              set (map id' (filter (\<lambda>r. id' r = i) xs)) = {}"
    by auto
  show ?thesis
    unfolding map_append m using d1 d2 disj by (simp only: distinct_append)
qed


subsection \<open>What each handler does to the table\<close>

lemma updateTodoCompletion_rows:
  "rows (snd (updateTodoCompletion now input s)) =
     filter (\<lambda>r. id' r \<noteq> upd_id input) (rows s) @
     map (\<lambda>r. r\<lparr>completed := upd_completed input, updated_at := now\<rparr>)
       (filter (\<lambda>r. id' r = upd_id input) (rows s))"
proof (cases "key_value s (upd_id input)")
  case True
  then show ?thesis
    by (simp add: updateTodoCompletion_def update_set_where_returning_def)
next
  case False
  then have "upd_id input \<notin> set (map id' (rows s))"
    by (simp add: key_value_def)
  then have "filter (\<lambda>r. id' r \<noteq> upd_id input) (rows s) = rows s"
    and "filter (\<lambda>r. id' r = upd_id input) (rows s) = []"
    by (rule filter_other_ids_absent, rule filter_id_absent)
  with False show ?thesis
    by (simp add: updateTodoCompletion_def update_set_where_returning_def)
qed

lemma updateTodoCompletion_next_id:
  "next_id (snd (updateTodoCompletion now input s)) = next_id s"
  by (simp add: updateTodoCompletion_def update_set_where_returning_def)

lemma updateTodoCompletion_ids:
  "set (map id' (rows (snd (updateTodoCompletion now input s)))) = set (map id' (rows s))"
  unfolding updateTodoCompletion_rows by (rule updated_ids_set) simp

lemma updateTodoCompletion_distinct:
  "distinct (map id' (rows s)) \<Longrightarrow>
   distinct (map id' (rows (snd (updateTodoCompletion now input s))))"
  unfolding updateTodoCompletion_rows by (rule updated_ids_distinct) simp_all

lemma updateTodoCompletion_result:
  assumes "i \<in> set (map id' (rows s))"
  shows "\<exists>r \<in> set (rows s). id' r = i \<and>
           fst (updateTodoCompletion now \<lparr>upd_id = i, upd_completed = c\<rparr> s) =
             Inr (r\<lparr>completed := c, updated_at := now\<rparr>)"
proof -
  from assms have k: "key_value s i" by (simp add: key_value_def)
  from assms have "filter (\<lambda>r. id' r = i) (rows s) \<noteq> []"
    by (auto simp: filter_empty_conv)
  then obtain y ys where f: "filter (\<lambda>r. id' r = i) (rows s) = y # ys"
    by (cases "filter (\<lambda>r. id' r = i) (rows s)") auto
  then have "y \<in> set (filter (\<lambda>r. id' r = i) (rows s))" by simp
  then have "y \<in> set (rows s)" and "id' y = i" by simp_all
  moreover have "fst (updateTodoCompletion now \<lparr>upd_id = i, upd_completed = c\<rparr> s) =
      Inr (y\<lparr>completed := c, updated_at := now\<rparr>)"
    using k by (simp add: updateTodoCompletion_def update_set_where_returning_def f)
  ultimately show ?thesis by blast
qed

lemma updateTodoCompletion_step:
  assumes "distinct (map id' (rows s))" and "r \<in> set (rows s)"
  shows "updateTodoCompletion now \<lparr>upd_id = id' r, upd_completed = c\<rparr> s =
           (Inr (r\<lparr>completed := c, updated_at := now\<rparr>),
            s\<lparr>rows := filter (\<lambda>x. x \<noteq> r) (rows s) @ [r\<lparr>completed := c, updated_at := now\<rparr>]\<rparr>)"
proof -
  from assms(2) have "key_value s (id' r)" by (simp add: key_value_def)
  then show ?thesis
    using assms
    by (simp add: updateTodoCompletion_def update_set_where_returning_def
          filter_id_unique filter_other_ids_unique)
qed

lemma createTodo_rows:
  "rows (snd (createTodo now input s)) =
     (if new_title input = [] then rows s
      else rows s @ [\<lparr>id' = next_id s, title = new_title input,
                       description = (case new_description input of
                                        Omitted \<Rightarrow> None | Null \<Rightarrow> None | Text x \<Rightarrow> Some x),
                       completed = False, created_at = now, updated_at = now\<rparr>])"
  by (simp add: createTodo_def insert_values_returning_def Let_def)

lemma createTodo_next_id:
  "next_id (snd (createTodo now input s)) =
     (if new_title input = [] then next_id s else next_id s + 1)"
  by (simp add: createTodo_def insert_values_returning_def Let_def)

lemma deleteTodo_rows:
  "rows (snd (deleteTodo input s)) = filter (\<lambda>r. id' r \<noteq> del_id input) (rows s)"
  by (simp add: deleteTodo_def deleteById_def)

lemma deleteTodo_next_id:
  "next_id (snd (deleteTodo input s)) = next_id s"
  by (simp add: deleteTodo_def deleteById_def)

lemma getTodos_snd: "snd (getTodos s) = s"
  by (simp add: getTodos_def)

lemma completed_after_update:
  "\<forall>x \<in> set (filter (\<lambda>r. id' r \<noteq> i) xs @ map (\<lambda>r. r\<lparr>completed := v, updated_at := t\<rparr>) ys).
     id' x = i \<longrightarrow> completed x = v"
proof (intro ballI impI)
  fix x
  assume m: "x \<in> set (filter (\<lambda>r. id' r \<noteq> i) xs @ map (\<lambda>r. r\<lparr>completed := v, updated_at := t\<rparr>) ys)"
    and i: "id' x = i"
  from m consider "x \<in> set (filter (\<lambda>r. id' r \<noteq> i) xs)"
    | "x \<in> set (map (\<lambda>r. r\<lparr>completed := v, updated_at := t\<rparr>) ys)"
    unfolding set_append by (rule UnE)
  then show "completed x = v"
  proof cases
    case 1
    then have "id' x \<noteq> i" by simp
    with i show ?thesis by (rule notE [rotated])
  next
    case 2
    then have "\<exists>y. x = y\<lparr>completed := v, updated_at := t\<rparr>"
      unfolding set_map image_iff by (rule bexE) (rule exI)
    then obtain y where "x = y\<lparr>completed := v, updated_at := t\<rparr>" ..
    then show ?thesis by simp
  qed
qed

lemma completed_update_again:
  "map completed
     (filter (\<lambda>r. id' r \<noteq> i)
        (filter (\<lambda>r. id' r \<noteq> i) xs @
         map (\<lambda>r. r\<lparr>completed := v, updated_at := t1\<rparr>) (filter (\<lambda>r. id' r = i) xs)) @
      map (\<lambda>r. r\<lparr>completed := v, updated_at := t2\<rparr>)
        (filter (\<lambda>r. id' r = i)
           (filter (\<lambda>r. id' r \<noteq> i) xs @
            map (\<lambda>r. r\<lparr>completed := v, updated_at := t1\<rparr>) (filter (\<lambda>r. id' r = i) xs)))) =
   map completed
     (filter (\<lambda>r. id' r \<noteq> i) xs @
      map (\<lambda>r. r\<lparr>completed := v, updated_at := t1\<rparr>) (filter (\<lambda>r. id' r = i) xs))"
proof -
  have o: "filter (\<lambda>r. id' r \<noteq> i)
        (filter (\<lambda>r. id' r \<noteq> i) xs @
         map (\<lambda>r. r\<lparr>completed := v, updated_at := t1\<rparr>) (filter (\<lambda>r. id' r = i) xs)) =
      filter (\<lambda>r. id' r \<noteq> i) xs"
    by (rule updated_others) simp
  have t: "filter (\<lambda>r. id' r = i)
        (filter (\<lambda>r. id' r \<noteq> i) xs @
         map (\<lambda>r. r\<lparr>completed := v, updated_at := t1\<rparr>) (filter (\<lambda>r. id' r = i) xs)) =
      map (\<lambda>r. r\<lparr>completed := v, updated_at := t1\<rparr>) (filter (\<lambda>r. id' r = i) xs)"
    by (rule updated_those) simp
  show ?thesis
    unfolding o t by (simp add: o_def)
qed

subsection \<open>The primary key over a sequence of requests\<close>

lemma key_ok_createDB: "key_ok createDB"
  by (simp add: key_ok_def createDB_def)

lemma key_ok_handle: "key_ok s \<Longrightarrow> key_ok (handle now q s)"
proof (cases q)
  case (CreateTodo input)
  assume "key_ok s"
  then show ?thesis
    unfolding key_ok_def CreateTodo
    by (auto simp: createTodo_rows createTodo_next_id)
next
  case GetTodos
  assume "key_ok s"
  then show ?thesis by (simp add: GetTodos getTodos_snd)
next
  case (UpdateTodoCompletion input)
  assume "key_ok s"
  then show ?thesis
    unfolding key_ok_def UpdateTodoCompletion
    by (simp add: updateTodoCompletion_ids updateTodoCompletion_distinct
          updateTodoCompletion_next_id del: set_map)
next
  case (DeleteTodo input)
  assume "key_ok s"
  then show ?thesis
    unfolding key_ok_def DeleteTodo
    by (simp add: deleteTodo_rows deleteTodo_next_id distinct_map_filter)
qed

lemma key_ok_run: "key_ok s \<Longrightarrow> key_ok (run tr s)"
  by (induction tr arbitrary: s) (auto simp: key_ok_handle)

lemma key_ok_distinct: "key_ok s \<Longrightarrow> distinct (map id' (rows s))"
  unfolding key_ok_def by simp

lemma next_id_handle: "next_id s \<le> next_id (handle now q s)"
  by (cases q)
     (simp_all add: createTodo_next_id getTodos_snd updateTodoCompletion_next_id deleteTodo_next_id)

lemma ids_handle:
  "set (map id' (rows (handle now q s))) \<subseteq> set (map id' (rows s)) \<union> {next_id s}"
proof (cases q)
  case (CreateTodo input)
  then show ?thesis by (auto simp: createTodo_rows)
next
  case GetTodos
  then show ?thesis by (auto simp: getTodos_snd)
next
  case (UpdateTodoCompletion input)
  then show ?thesis by (auto simp: updateTodoCompletion_ids simp del: set_map)
next
  case (DeleteTodo input)
  then show ?thesis by (auto simp: deleteTodo_rows)
qed

lemma ids_run:
  "key_ok s \<Longrightarrow> i < next_id s \<Longrightarrow> i \<notin> set (map id' (rows s)) \<Longrightarrow>
   i \<notin> set (map id' (rows (run tr s)))"
proof (induction tr arbitrary: s)
  case Nil
  then show ?case by simp
next
  case (Cons a tr)
  obtain now q where a: "a = (now, q)" by (cases a)
  have k: "key_ok (handle now q s)" using Cons.prems(1) by (rule key_ok_handle)
  have "next_id s \<le> next_id (handle now q s)" by (rule next_id_handle)
  with Cons.prems(2) have lt: "i < next_id (handle now q s)" by simp
  have "i \<notin> set (map id' (rows (handle now q s)))"
    using ids_handle [of now q s] Cons.prems(2,3) by auto
  with k lt have "i \<notin> set (map id' (rows (run tr (handle now q s))))" by (rule Cons.IH)
  then show ?case by (simp add: a)
qed

subsection \<open>Timestamps over a sequence of requests\<close>



subsection \<open>Sequences without deletions, sequences without updates\<close>








subsection \<open>The example tables\<close>

lemma example_db_reached: "run example_requests createDB = example_db"
  by (simp add: example_creations_def example_requests_def example_db_def createDB_def
        createTodo_def insert_values_returning_def updateTodoCompletion_def
        update_set_where_returning_def key_value_def in_key_range_def Let_def)

section \<open>The claims\<close>




text \<open>
  C2, as stated, fails for an id that is no value of the key column: the engine rejects the
  statement, and the handler rethrows that error instead of its not-found error.
\<close>

theorem updateTodoCompletion_out_of_range_counterexample:
  "2147483648 \<notin> set (map id' (rows example_db))
   \<and> updateTodoCompletion 40 \<lparr>upd_id = 2147483648, upd_completed = True\<rparr> example_db =
       (Inl DatabaseError, example_db)
   \<and> DatabaseError \<noteq> Error ''Todo with id 2147483648 not found''"
  by (simp add: example_db_def updateTodoCompletion_def update_set_where_returning_def
        key_value_def in_key_range_def)

text \<open>
  C2, amended. For an id that no row has and that lies within the range of the key column,
  and either boolean, \<open>updateTodoCompletion\<close> fails with the error
  \<open>Todo with id <id> not found\<close>; the message names that id and no other (two ids with the
  same rendering are equal). For an id outside the range it fails with the statement's own
  error. In both cases the database is what it was: no row is created.
\<close>

theorem updateTodoCompletion_not_found:
  assumes "i \<notin> set (map id' (rows s))"
  shows "(in_key_range i \<longrightarrow>
            updateTodoCompletion now \<lparr>upd_id = i, upd_completed = c\<rparr> s =
              (Inl (Error (''Todo with id '' @ string_of_int i @ '' not found'')), s))
         \<and> (\<not> in_key_range i \<longrightarrow>
            updateTodoCompletion now \<lparr>upd_id = i, upd_completed = c\<rparr> s = (Inl DatabaseError, s))
         \<and> snd (updateTodoCompletion now \<lparr>upd_id = i, upd_completed = c\<rparr> s) = s
         \<and> (\<forall>j. string_of_int j = string_of_int i \<longrightarrow> j = i)"
proof -
  from assms have f: "filter (\<lambda>r. id' r = i) (rows s) = []"
    and o: "filter (\<lambda>r. id' r \<noteq> i) (rows s) = rows s"
    by (rule filter_id_absent, rule filter_other_ids_absent)
  from assms have k: "key_value s i = in_key_range i"
    by (simp add: key_value_def)
  have inside: "updateTodoCompletion now \<lparr>upd_id = i, upd_completed = c\<rparr> s =
      (Inl (Error (''Todo with id '' @ string_of_int i @ '' not found'')), s)"
    if "in_key_range i"
    using that by (simp add: updateTodoCompletion_def update_set_where_returning_def k f o)
  have outside: "updateTodoCompletion now \<lparr>upd_id = i, upd_completed = c\<rparr> s =
      (Inl DatabaseError, s)"
    if "\<not> in_key_range i"
    using that by (simp add: updateTodoCompletion_def update_set_where_returning_def k)
  have same: "snd (updateTodoCompletion now \<lparr>upd_id = i, upd_completed = c\<rparr> s) = s"
    by (cases "in_key_range i") (simp_all add: inside outside)
  have "\<forall>j. string_of_int j = string_of_int i \<longrightarrow> j = i"
    by (blast dest: string_of_int_inj)
  with inside outside same show ?thesis by blast
qed

theorem updateTodoCompletion_not_found_witness:
  "999 \<notin> set (map id' (rows example_db))
   \<and> in_key_range 999
   \<and> updateTodoCompletion 40 \<lparr>upd_id = 999, upd_completed = True\<rparr> example_db =
       (Inl (Error ''Todo with id 999 not found''), example_db)
   \<and> - 2147483649 \<notin> set (map id' (rows example_db))
   \<and> \<not> in_key_range (- 2147483649)
   \<and> updateTodoCompletion 40 \<lparr>upd_id = - 2147483649, upd_completed = False\<rparr> example_db =
       (Inl DatabaseError, example_db)"
proof -
  have absent: "999 \<notin> set (map id' (rows example_db))"
    and absent': "- 2147483649 \<notin> set (map id' (rows example_db))"
    by (simp_all add: example_db_def)
  have inside: "in_key_range 999" and outside: "\<not> in_key_range (- 2147483649)"
    by (simp_all add: in_key_range_def)
  have digits: "string_of_int 999 = ''999''"
    by (simp add: string_of_int_def string_of_nat.simps digit_char_def)
  have "updateTodoCompletion 40 \<lparr>upd_id = 999, upd_completed = True\<rparr> example_db =
      (Inl (Error (''Todo with id '' @ string_of_int 999 @ '' not found'')), example_db)"
    using updateTodoCompletion_not_found [OF absent, of 40 True] inside by blast
  then have found: "updateTodoCompletion 40 \<lparr>upd_id = 999, upd_completed = True\<rparr> example_db =
      (Inl (Error ''Todo with id 999 not found''), example_db)"
    unfolding digits by simp
  have rejected: "updateTodoCompletion 40 \<lparr>upd_id = - 2147483649, upd_completed = False\<rparr>
      example_db = (Inl DatabaseError, example_db)"
    using updateTodoCompletion_not_found [OF absent', of 40 False] outside by blast
  show ?thesis
    by (intro conjI absent inside found absent' outside rejected)
qed

text \<open>
  C3. For an id that no row has, \<open>deleteTodo\<close> returns \<open>{ success: false }\<close>, raises no
  error (the result is \<open>Inr\<close>), and leaves the database as it was.
\<close>

theorem deleteTodo_absent:
  assumes "i \<notin> set (map id' (rows s))"
  shows "deleteTodo \<lparr>del_id = i\<rparr> s = (Inr \<lparr>success = False\<rparr>, s)"
  using assms by (simp add: deleteTodo_def deleteById_def filter_other_ids_absent)

theorem deleteTodo_absent_witness:
  "99999 \<notin> set (map id' (rows example_db))
   \<and> deleteTodo \<lparr>del_id = 99999\<rparr> example_db = (Inr \<lparr>success = False\<rparr>, example_db)"
  using deleteTodo_absent [of 99999 example_db]
  by (simp add: example_db_def)

text \<open>
  C4. For an input with a non-empty title, in every table reached from the empty one,
  \<open>createTodo\<close> returns a todo that is appended to the table, with \<open>completed = false\<close>,
  an id that no existing row has, \<open>created_at = updated_at\<close>, the input's title, and no
  description when the input's description is omitted or \<open>null\<close>.
\<close>

theorem createTodo_fresh:
  assumes "new_title input \<noteq> []"
  shows "\<exists>t. createTodo now input (run tr createDB) =
               (Inr t, (run tr createDB)\<lparr>rows := rows (run tr createDB) @ [t],
                                         next_id := next_id (run tr createDB) + 1\<rparr>)
           \<and> completed t = False
           \<and> id' t \<notin> set (map id' (rows (run tr createDB)))
           \<and> created_at t = updated_at t
           \<and> title t = new_title input
           \<and> (new_description input = Omitted \<or> new_description input = Null
                \<longrightarrow> description t = None)
           \<and> (\<forall>x. new_description input = Text x \<longrightarrow> description t = Some x)"
proof -
  have "key_ok (run tr createDB)"
    using key_ok_createDB by (rule key_ok_run)
  then have "next_id (run tr createDB) \<notin> set (map id' (rows (run tr createDB)))"
    unfolding key_ok_def by blast
  with assms show ?thesis
    by (auto simp: createTodo_def insert_values_returning_def Let_def
             split: description_input.splits)
qed

theorem createTodo_fresh_witness:
  "new_title \<lparr>new_title = ''Buy milk'', new_description = Omitted\<rparr> \<noteq> []
   \<and> run example_requests createDB = example_db
   \<and> createTodo 40 \<lparr>new_title = ''Buy milk'', new_description = Omitted\<rparr> example_db =
       (Inr \<lparr>id' = 3, title = ''Buy milk'', description = None, completed = False,
             created_at = 40, updated_at = 40\<rparr>,
        example_db\<lparr>rows := rows example_db @
                     [\<lparr>id' = 3, title = ''Buy milk'', description = None, completed = False,
                       created_at = 40, updated_at = 40\<rparr>],
                   next_id := 4\<rparr>)
   \<and> 3 \<notin> set (map id' (rows example_db))"
  using createTodo_fresh [of "\<lparr>new_title = ''Buy milk'', new_description = Omitted\<rparr>" 40
      example_requests]
  by (simp add: example_creations_def example_requests_def example_db_def createDB_def createTodo_def
        insert_values_returning_def updateTodoCompletion_def update_set_where_returning_def
        key_value_def in_key_range_def Let_def)

text \<open>
  C5. For a row \<open>r\<close> of a table whose ids are unique, and either boolean \<open>c\<close>,
  \<open>updateTodoCompletion\<close> on the id of \<open>r\<close> returns the row with \<open>completed = c\<close> and
  \<open>updated_at\<close> the server time of the call, and with \<open>id\<close>, \<open>title\<close>, \<open>description\<close> and
  \<open>created_at\<close> as they were. The table then holds that row instead of \<open>r\<close>, as its only
  row of that id, and every other row as before; where in a scan the row is met is left
  open.
\<close>

theorem updateTodoCompletion_present:
  assumes "distinct (map id' (rows s))" and "r \<in> set (rows s)"
  shows "\<exists>r' s'.
           updateTodoCompletion now \<lparr>upd_id = id' r, upd_completed = c\<rparr> s = (Inr r', s')
           \<and> r' = r\<lparr>completed := c, updated_at := now\<rparr>
           \<and> completed r' = c \<and> updated_at r' = now
           \<and> id' r' = id' r \<and> title r' = title r \<and> description r' = description r
           \<and> created_at r' = created_at r
           \<and> set (rows s') = insert r' (set (rows s) - {r})
           \<and> length (rows s') = length (rows s)
           \<and> filter (\<lambda>x. id' x \<noteq> id' r) (rows s') = filter (\<lambda>x. id' x \<noteq> id' r) (rows s)
           \<and> filter (\<lambda>x. id' x = id' r) (rows s') = [r']
           \<and> next_id s' = next_id s"
proof -
  define r' where "r' = r\<lparr>completed := c, updated_at := now\<rparr>"
  define s' where "s' = s\<lparr>rows := filter (\<lambda>x. x \<noteq> r) (rows s) @ [r']\<rparr>"
  have step: "updateTodoCompletion now \<lparr>upd_id = id' r, upd_completed = c\<rparr> s = (Inr r', s')"
    unfolding r'_def s'_def using assms by (rule updateTodoCompletion_step)
  have rows': "rows s' = filter (\<lambda>x. id' x \<noteq> id' r) (rows s) @
      map (\<lambda>x. x\<lparr>completed := c, updated_at := now\<rparr>) (filter (\<lambda>x. id' x = id' r) (rows s))"
    using assms by (simp add: s'_def r'_def filter_id_unique filter_other_ids_unique)
  have others: "filter (\<lambda>x. id' x \<noteq> id' r) (rows s') = filter (\<lambda>x. id' x \<noteq> id' r) (rows s)"
    unfolding rows' by (rule updated_others) simp
  have those: "filter (\<lambda>x. id' x = id' r) (rows s') = [r']"
    unfolding rows' using assms by (simp add: updated_those filter_id_unique r'_def)
  have members: "set (rows s') = insert r' (set (rows s) - {r})"
    by (auto simp: s'_def)
  have "length (filter (\<lambda>x. id' x \<noteq> id' r) (rows s)) +
        length (filter (\<lambda>x. id' x = id' r) (rows s)) = length (rows s)"
    using sum_length_filter_compl [of "\<lambda>x. id' x = id' r" "rows s"] by (simp add: add.commute)
  then have len: "length (rows s') = length (rows s)"
    unfolding rows' by simp
  have nxt: "next_id s' = next_id s" by (simp add: s'_def)
  have fields: "completed r' = c" "updated_at r' = now" "id' r' = id' r" "title r' = title r"
    "description r' = description r" "created_at r' = created_at r"
    by (simp_all add: r'_def)
  show ?thesis
    by (rule exI [of _ r'], rule exI [of _ s'])
       (intro conjI step r'_def fields members len others those nxt)
qed

theorem updateTodoCompletion_present_witness:
  "distinct (map id' (rows example_db))
   \<and> \<lparr>id' = 1, title = ''Todo 1'', description = Some ''First todo'', completed = False,
       created_at = 10, updated_at = 10\<rparr> \<in> set (rows example_db)
   \<and> fst (updateTodoCompletion 40 \<lparr>upd_id = 1, upd_completed = True\<rparr> example_db) =
       Inr \<lparr>id' = 1, title = ''Todo 1'', description = Some ''First todo'', completed = True,
            created_at = 10, updated_at = 40\<rparr>
   \<and> set (rows (snd (updateTodoCompletion 40 \<lparr>upd_id = 1, upd_completed = True\<rparr> example_db))) =
       {\<lparr>id' = 1, title = ''Todo 1'', description = Some ''First todo'', completed = True,
          created_at = 10, updated_at = 40\<rparr>,
        \<lparr>id' = 2, title = ''Todo 2'', description = None, completed = True,
          created_at = 20, updated_at = 30\<rparr>}"
  using updateTodoCompletion_present [where s = example_db and c = True and now = 40 and
      r = "\<lparr>id' = 1, title = ''Todo 1'', description = Some ''First todo'', completed = False,
        created_at = 10, updated_at = 10\<rparr>"]
  by (auto simp: example_db_def updateTodoCompletion_def update_set_where_returning_def
        key_value_def in_key_range_def)

text \<open>
  C6. For a row \<open>r\<close> of a table reached from the empty one, \<open>deleteTodo\<close> on the id of
  \<open>r\<close> returns \<open>{ success: true }\<close> and removes exactly \<open>r\<close>: the other rows stay, unchanged
  and in their order. Whatever requests follow, no later \<open>getTodos\<close> result has that id.
\<close>

theorem deleteTodo_present:
  assumes "r \<in> set (rows (run tr createDB))"
  shows "\<exists>s'. deleteTodo \<lparr>del_id = id' r\<rparr> (run tr createDB) = (Inr \<lparr>success = True\<rparr>, s')
           \<and> rows s' = filter (\<lambda>x. x \<noteq> r) (rows (run tr createDB))
           \<and> set (rows s') = set (rows (run tr createDB)) - {r}
           \<and> next_id s' = next_id (run tr createDB)
           \<and> (\<forall>tr' ts. fst (getTodos (run tr' s')) = Inr ts \<longrightarrow> id' r \<notin> set (map id' ts))"
proof -
  define s where "s = run tr createDB"
  define s' where "s' = snd (deleteTodo \<lparr>del_id = id' r\<rparr> s)"
  have k: "key_ok s"
    unfolding s_def using key_ok_createDB by (rule key_ok_run)
  then have d: "distinct (map id' (rows s))" by (rule key_ok_distinct)
  from assms have r: "r \<in> set (rows s)" by (simp add: s_def)
  have rows': "rows s' = filter (\<lambda>x. x \<noteq> r) (rows s)"
    unfolding s'_def using d r by (simp add: deleteTodo_rows filter_other_ids_unique)
  have nxt: "next_id s' = next_id s"
    unfolding s'_def by (rule deleteTodo_next_id)
  have res: "deleteTodo \<lparr>del_id = id' r\<rparr> s = (Inr \<lparr>success = True\<rparr>, s')"
    unfolding s'_def using r by (simp add: deleteTodo_def deleteById_def)
  have k': "key_ok s'"
    using key_ok_handle [OF k, of 0 "DeleteTodo \<lparr>del_id = id' r\<rparr>"] by (simp add: s'_def)
  from k r have lt: "id' r < next_id s'"
    unfolding key_ok_def nxt by simp
  have gone: "id' r \<notin> set (map id' (rows s'))"
    by (auto simp: s'_def deleteTodo_rows)
  have later: "id' r \<notin> set (map id' (rows (run tr' s')))" for tr'
    using k' lt gone by (rule ids_run)
  have "\<forall>tr' ts. fst (getTodos (run tr' s')) = Inr ts \<longrightarrow> id' r \<notin> set (map id' ts)"
    using later by (simp add: getTodos_def select_from_def del: set_map)
  moreover have "set (rows s') = set (rows s) - {r}"
    unfolding rows' by auto
  ultimately show ?thesis
    using res rows' nxt unfolding s_def by blast
qed

theorem deleteTodo_present_witness:
  "\<lparr>id' = 2, title = ''Todo 2'', description = None, completed = True,
     created_at = 20, updated_at = 30\<rparr> \<in> set (rows (run example_requests createDB))
   \<and> deleteTodo \<lparr>del_id = 2\<rparr> (run example_requests createDB) =
       (Inr \<lparr>success = True\<rparr>,
        \<lparr>rows = [\<lparr>id' = 1, title = ''Todo 1'', description = Some ''First todo'',
                  completed = False, created_at = 10, updated_at = 10\<rparr>],
         next_id = 3\<rparr>)"
  using deleteTodo_present [where tr = example_requests and
      r = "\<lparr>id' = 2, title = ''Todo 2'', description = None, completed = True,
            created_at = 20, updated_at = 30\<rparr>"]
  by (simp add: example_creations_def example_requests_def example_db_def createDB_def createTodo_def
        insert_values_returning_def updateTodoCompletion_def update_set_where_returning_def
        key_value_def in_key_range_def Let_def
        deleteTodo_def deleteById_def)

text \<open>
  C7. The claim asks that \<open>updated_at\<close> strictly increases at each of two calls in
  succession, as the handler's toggle test asserts of calls made back to back. The handler
  sets \<open>updated_at\<close> to the server's \<open>NOW()\<close>, so when both calls fall on the same reading of
  the clock it does not: here the first todo of the example table is completed at 40 and
  uncompleted at 40, and the second call returns the \<open>updated_at\<close> of the first.
\<close>

theorem updateTodoCompletion_toggle_same_instant:
  "fst (updateTodoCompletion 40 \<lparr>upd_id = 1, upd_completed = True\<rparr> example_db) =
     Inr \<lparr>id' = 1, title = ''Todo 1'', description = Some ''First todo'', completed = True,
          created_at = 10, updated_at = 40\<rparr>
   \<and> fst (updateTodoCompletion 40 \<lparr>upd_id = 1, upd_completed = False\<rparr>
           (snd (updateTodoCompletion 40 \<lparr>upd_id = 1, upd_completed = True\<rparr> example_db))) =
     Inr \<lparr>id' = 1, title = ''Todo 1'', description = Some ''First todo'', completed = False,
          created_at = 10, updated_at = 40\<rparr>
   \<and> \<not> updated_at \<lparr>id' = 1, title = ''Todo 1'', description = Some ''First todo'',
                    completed = True, created_at = 10, updated_at = 40\<rparr>
         < updated_at \<lparr>id' = 1, title = ''Todo 1'', description = Some ''First todo'',
                       completed = False, created_at = 10, updated_at = 40\<rparr>"
  by (simp add: example_db_def updateTodoCompletion_def update_set_where_returning_def
        key_value_def in_key_range_def)




text \<open>
  C9. \<open>updateTodoCompletion\<close> writes the given value, it does not flip the stored one: for
  an id present in the table and either boolean \<open>v\<close>, two calls in succession with \<open>v\<close>
  both return a row with \<open>completed = v\<close>, every row with that id has \<open>completed = v\<close>
  after the first call and after the second, and the \<open>completed\<close> column after the
  second call is what it was after the first.
\<close>

theorem updateTodoCompletion_idempotent_on_completed:
  assumes "i \<in> set (map id' (rows s))"
  shows "\<exists>r1 s1 r2 s2.
           updateTodoCompletion t1 \<lparr>upd_id = i, upd_completed = v\<rparr> s = (Inr r1, s1)
           \<and> updateTodoCompletion t2 \<lparr>upd_id = i, upd_completed = v\<rparr> s1 = (Inr r2, s2)
           \<and> completed r1 = v \<and> completed r2 = v
           \<and> map completed (rows s2) = map completed (rows s1)
           \<and> (\<forall>x \<in> set (rows s1). id' x = i \<longrightarrow> completed x = v)
           \<and> (\<forall>x \<in> set (rows s2). id' x = i \<longrightarrow> completed x = v)"
proof -
  define s1 where "s1 = snd (updateTodoCompletion t1 \<lparr>upd_id = i, upd_completed = v\<rparr> s)"
  define s2 where "s2 = snd (updateTodoCompletion t2 \<lparr>upd_id = i, upd_completed = v\<rparr> s1)"
  from updateTodoCompletion_result [OF assms, of t1 v] obtain r1
    where r1: "fst (updateTodoCompletion t1 \<lparr>upd_id = i, upd_completed = v\<rparr> s) = Inr r1"
      and c1: "completed r1 = v" by auto
  have "set (map id' (rows s1)) = set (map id' (rows s))"
    unfolding s1_def by (rule updateTodoCompletion_ids)
  with assms have "i \<in> set (map id' (rows s1))" by simp
  from updateTodoCompletion_result [OF this, of t2 v] obtain r2
    where r2: "fst (updateTodoCompletion t2 \<lparr>upd_id = i, upd_completed = v\<rparr> s1) = Inr r2"
      and c2: "completed r2 = v" by auto
  have rows1: "rows s1 = filter (\<lambda>r. id' r \<noteq> i) (rows s) @
      map (\<lambda>r. r\<lparr>completed := v, updated_at := t1\<rparr>) (filter (\<lambda>r. id' r = i) (rows s))"
    unfolding s1_def by (simp add: updateTodoCompletion_rows)
  have rows2: "rows s2 = filter (\<lambda>r. id' r \<noteq> i) (rows s1) @
      map (\<lambda>r. r\<lparr>completed := v, updated_at := t2\<rparr>) (filter (\<lambda>r. id' r = i) (rows s1))"
    unfolding s2_def by (simp add: updateTodoCompletion_rows)
  have a1: "\<forall>x \<in> set (rows s1). id' x = i \<longrightarrow> completed x = v"
    unfolding rows1 by (rule completed_after_update)
  have a2: "\<forall>x \<in> set (rows s2). id' x = i \<longrightarrow> completed x = v"
    unfolding rows2 by (rule completed_after_update)
  have same: "map completed (rows s2) = map completed (rows s1)"
    unfolding rows2 unfolding rows1 by (rule completed_update_again)
  have e1: "updateTodoCompletion t1 \<lparr>upd_id = i, upd_completed = v\<rparr> s = (Inr r1, s1)"
    using r1 by (simp add: s1_def prod_eq_iff)
  have e2: "updateTodoCompletion t2 \<lparr>upd_id = i, upd_completed = v\<rparr> s1 = (Inr r2, s2)"
    using r2 by (simp add: s2_def prod_eq_iff)
  show ?thesis
    by (rule exI [of _ r1], rule exI [of _ s1], rule exI [of _ r2], rule exI [of _ s2])
       (intro conjI e1 e2 c1 c2 same a1 a2)
qed

theorem updateTodoCompletion_idempotent_on_completed_witness:
  "2 \<in> set (map id' (rows example_db))
   \<and> updateTodoCompletion 40 \<lparr>upd_id = 2, upd_completed = True\<rparr> example_db =
       (Inr \<lparr>id' = 2, title = ''Todo 2'', description = None, completed = True,
             created_at = 20, updated_at = 40\<rparr>,
        \<lparr>rows =
           [\<lparr>id' = 1, title = ''Todo 1'', description = Some ''First todo'', completed = False,
             created_at = 10, updated_at = 10\<rparr>,
            \<lparr>id' = 2, title = ''Todo 2'', description = None, completed = True,
             created_at = 20, updated_at = 40\<rparr>],
         next_id = 3\<rparr>)
   \<and> map completed (rows (snd (updateTodoCompletion 50 \<lparr>upd_id = 2, upd_completed = True\<rparr>
        (snd (updateTodoCompletion 40 \<lparr>upd_id = 2, upd_completed = True\<rparr> example_db)))))
       = [False, True]"
  using updateTodoCompletion_idempotent_on_completed [where s = example_db and i = 2 and
      v = True and ?t1.0 = 40 and ?t2.0 = 50]
  by (simp add: example_db_def updateTodoCompletion_def update_set_where_returning_def
        key_value_def in_key_range_def)

text \<open>
  C10. \<open>getTodos\<close> is read-only: the database after the call is the database before it,
  rows and timestamps included, and the call returns without an error.
\<close>

theorem getTodos_read_only:
  "snd (getTodos s) = s \<and> rows (snd (getTodos s)) = rows s \<and> (\<exists>ts. fst (getTodos s) = Inr ts)"
  by (simp add: getTodos_def)

end
